theory Spec2Isabelle
  imports Main "HOL-Library.Word"
begin

unbundle bit_operations_syntax

section \<open>Machine types and return codes\<close>

text \<open>
  Modelled from the spec: the typedef of \<^verbatim>\<open>u32\<close> is in a header of the library that
  is not among the source files; by its name, and as the pixel type of the 32-bit
  mode the spec requires (the source steps a \<^verbatim>\<open>u32 *\<close> by a quarter of the byte
  stride), it is the 32-bit unsigned integer, whose sums wrap around.
  \<^verbatim>\<open>uint64_t\<close> is the key-code type, and a byte read from standard input is eight
  bits wide.
\<close>

type_synonym u32 = "32 word"
type_synonym u64 = "64 word"
type_synonym byte = "8 word"

text \<open>
  Modelled from the spec: the \<^verbatim>\<open>TFB_*\<close> return codes are macros of the header
  \<^verbatim>\<open>tfblib/tfblib.h\<close>, which is not among the source files. The spec lists them as
  distinct small integer codes; each constructor below is one of the codes that
  \<^verbatim>\<open>system_code.c\<close> returns from the functions embedded here.
\<close>

datatype tfb_ret =
    TFB_SUCCESS
  | TFB_INVALID_WINDOW
  | TFB_KB_WRONG_MODE
  | TFB_KB_MODE_GET_FAILED
  | TFB_KB_MODE_SET_FAILED

section \<open>Session state\<close>

text \<open>
  Modelled from the spec: the process-wide variables that \<^verbatim>\<open>system_code.c\<close> reads
  and writes are declared in headers that are not among the source files; the record
  has one field per variable the embedded functions use, named as in the source
  without the leading underscores, with the types the spec's data model gives them:
  screen dimensions and the viewport's offset, size and end coordinates are \<^verbatim>\<open>u32\<close>
  (the type of the arguments of \<^verbatim>\<open>tfb_set_window\<close> assigned to them), the two buffers
  are addresses into a byte-addressed store (address 0 is the null pointer), the
  mapped size and the strides are byte counts. The two fields \<open>fbi_xoffset\<close> and
  \<open>fbi_yoffset\<close> are \<^verbatim>\<open>__fbi.xoffset\<close> and \<^verbatim>\<open>__fbi.yoffset\<close>, 32-bit fields of the
  device's screen information. The two descriptors are the source's \<^verbatim>\<open>int\<close>
  variables, \<open>-1\<close> when not open.
\<close>

record fb_session =
  fbi_xoffset :: u32
  fbi_yoffset :: u32
  fb_screen_w :: u32
  fb_screen_h :: u32
  fb_off_x :: u32
  fb_off_y :: u32
  fb_win_w :: u32
  fb_win_h :: u32
  fb_win_end_x :: u32
  fb_win_end_y :: u32
  fb_buffer :: nat
  fb_real_buffer :: nat
  fb_size :: nat
  fb_pitch :: nat
  fb_pitch_div4 :: nat
  fbfd :: int
  ttyfd :: int

section \<open>Viewport controller\<close>

text \<open>
  \<^verbatim>\<open>tfb_set_window\<close>: both sums are computed in \<^verbatim>\<open>u32\<close>, so they wrap around at
  \<open>2 ^ 32\<close> before they are compared with the screen size.
\<close>

definition tfb_set_window :: "u32 \<Rightarrow> u32 \<Rightarrow> u32 \<Rightarrow> u32 \<Rightarrow> fb_session \<Rightarrow> tfb_ret \<times> fb_session" where
  "tfb_set_window x y w h s =
     (if x + w > fb_screen_w s then (TFB_INVALID_WINDOW, s)
      else if y + h > fb_screen_h s then (TFB_INVALID_WINDOW, s)
      else
        let s1 = s\<lparr>fb_off_x := fbi_xoffset s + x\<rparr>;
            s2 = s1\<lparr>fb_off_y := fbi_yoffset s1 + y\<rparr>;
            s3 = s2\<lparr>fb_win_w := w\<rparr>;
            s4 = s3\<lparr>fb_win_h := h\<rparr>;
            s5 = s4\<lparr>fb_win_end_x := fb_off_x s4 + fb_win_w s4\<rparr>;
            s6 = s5\<lparr>fb_win_end_y := fb_off_y s5 + fb_win_h s5\<rparr>
        in (TFB_SUCCESS, s6))"

section \<open>Device session teardown\<close>



section \<open>Compositor\<close>

text \<open>
  Memory is a byte-addressed store. \<^verbatim>\<open>memcpy\<close> copies \<open>n\<close> bytes between regions that
  do not overlap.
\<close>

type_synonym mem = "nat \<Rightarrow> byte"

definition memcpy :: "nat \<Rightarrow> nat \<Rightarrow> nat \<Rightarrow> mem \<Rightarrow> mem" where
  "memcpy dest src n m = (\<lambda>a. if dest \<le> a \<and> a < dest + n then m (src + (a - dest)) else m a)"

text \<open>
  The row loop of \<^verbatim>\<open>tfb_flush_window\<close>. Both pointers are \<^verbatim>\<open>u32 *\<close>, so adding
  \<^verbatim>\<open>__fb_pitch_div4\<close> advances them by four times as many bytes. Besides the store
  the loop carries the list of the \<^verbatim>\<open>memcpy\<close> calls made so far, each as
  (destination, source, length).
\<close>

function flush_rows ::
  "fb_session \<Rightarrow> nat \<Rightarrow> nat \<Rightarrow> nat \<Rightarrow> nat \<Rightarrow> mem \<times> (nat \<times> nat \<times> nat) list
     \<Rightarrow> mem \<times> (nat \<times> nat \<times> nat) list" where
  "flush_rows s win_pitch h dest src (m, calls) =
     (if h < unat (fb_win_h s) then
        flush_rows s win_pitch (h + 1)
          (dest + 4 * fb_pitch_div4 s) (src + 4 * fb_pitch_div4 s)
          (memcpy dest src win_pitch m, calls @ [(dest, src, win_pitch)])
      else (m, calls))"
  by pat_completeness auto
termination
  by (relation "measure (\<lambda>(s, win_pitch, h, dest, src, mc). unat (fb_win_h s) - h)") auto

declare flush_rows.simps [simp del]

text \<open>
  \<^verbatim>\<open>tfb_flush_window\<close>: the two shifts are computed in \<^verbatim>\<open>u32\<close>; the byte offsets are
  added to the buffer addresses, which are \<^verbatim>\<open>void *\<close> and so advance by bytes. The
  function returns nothing; the model returns the store after the call and the list
  of \<^verbatim>\<open>memcpy\<close> calls made.
\<close>

definition tfb_flush_window :: "fb_session \<Rightarrow> mem \<Rightarrow> mem \<times> (nat \<times> nat \<times> nat) list" where
  "tfb_flush_window s m =
     (if fb_buffer s = fb_real_buffer s then (m, [])
      else
        let dest = fb_real_buffer s + unat (fb_off_y s) * fb_pitch s + unat (push_bit 2 (fb_off_x s));
            src = fb_buffer s + unat (fb_off_y s) * fb_pitch s + unat (push_bit 2 (fb_off_x s));
            win_pitch = push_bit 2 (fb_win_w s)
        in flush_rows s (unat win_pitch) 0 dest src (m, []))"

text \<open>
  \<^verbatim>\<open>tfb_flush_window\<close> checks nothing before it copies. The state in which its copies
  stay inside the window: a shadow buffer that is an allocation of its own, apart from
  the mapped region; a byte stride of four times the pixel stride the loop steps by,
  below \<open>2 ^ 32\<close> as the 32-bit field \<^verbatim>\<open>line_length\<close> of the device is; a window
  whose rows end within a scanline and whose last row ends within the mapped size.
\<close>

definition window_fits :: "fb_session \<Rightarrow> bool" where
  "window_fits s \<longleftrightarrow>
     fb_buffer s \<noteq> fb_real_buffer s
     \<and> (fb_real_buffer s + fb_size s \<le> fb_buffer s \<or> fb_buffer s + fb_size s \<le> fb_real_buffer s)
     \<and> fb_pitch s = 4 * fb_pitch_div4 s
     \<and> fb_pitch s < 2 ^ 32
     \<and> 4 * (unat (fb_off_x s) + unat (fb_win_w s)) \<le> fb_pitch s
     \<and> (unat (fb_off_y s) + unat (fb_win_h s)) * fb_pitch s \<le> fb_size s"

text \<open>
  Byte \<open>i\<close> of a buffer lies in the window when its row \<open>i div pitch\<close> and its byte
  column \<open>i mod pitch\<close> do.
\<close>

definition in_window :: "fb_session \<Rightarrow> nat \<Rightarrow> bool" where
  "in_window s i \<longleftrightarrow>
     unat (fb_off_y s) \<le> i div fb_pitch s
     \<and> i div fb_pitch s < unat (fb_off_y s) + unat (fb_win_h s)
     \<and> 4 * unat (fb_off_x s) \<le> i mod fb_pitch s
     \<and> i mod fb_pitch s < 4 * (unat (fb_off_x s) + unat (fb_win_w s))"

section \<open>Terminal mode controller\<close>

text \<open>
  \<^verbatim>\<open>struct termios\<close> and the flag bits the source clears, with the values of the Linux
  header \<^verbatim>\<open><termios.h>\<close>.
\<close>

record termios =
  c_iflag :: u32
  c_oflag :: u32
  c_cflag :: u32
  c_lflag :: u32
  c_line :: byte
  c_cc :: "byte list"
  c_ispeed :: u32
  c_ospeed :: u32

definition BRKINT :: u32 where "BRKINT = 0x2"
definition INPCK :: u32 where "INPCK = 0x10"
definition ISTRIP :: u32 where "ISTRIP = 0x20"
definition IXON :: u32 where "IXON = 0x400"
definition ISIG :: u32 where "ISIG = 0x1"
definition ICANON :: u32 where "ICANON = 0x2"
definition ECHO :: u32 where "ECHO = 0x8"
definition IEXTEN :: u32 where "IEXTEN = 0x8000"

text \<open>
  The two static variables of the controller, and the attributes the terminal on
  descriptor 0 currently has.
\<close>

record kb_state =
  tfb_kb_raw_mode :: bool
  orig_termios :: termios
  tty_termios :: termios

text \<open>
  \<^verbatim>\<open>tcgetattr\<close> and \<^verbatim>\<open>tcsetattr\<close> can fail; whether each call succeeds is given by
  \<open>get_ok\<close> and \<open>set_ok\<close>. A successful \<^verbatim>\<open>tcgetattr\<close> stores the terminal's
  attributes, a successful \<^verbatim>\<open>tcsetattr\<close> replaces them.
\<close>

definition tfb_set_kb_raw_mode :: "bool \<Rightarrow> bool \<Rightarrow> kb_state \<Rightarrow> tfb_ret \<times> kb_state" where
  "tfb_set_kb_raw_mode get_ok set_ok k =
     (if tfb_kb_raw_mode k then (TFB_KB_WRONG_MODE, k)
      else if \<not> get_ok then (TFB_KB_MODE_GET_FAILED, k)
      else
        let k1 = k\<lparr>orig_termios := tty_termios k\<rparr>;
            t = orig_termios k1;
            t1 = t\<lparr>c_iflag := c_iflag t AND NOT (BRKINT OR INPCK OR ISTRIP OR IXON)\<rparr>;
            t2 = t1\<lparr>c_lflag := c_lflag t1 AND NOT (ECHO OR ICANON OR IEXTEN OR ISIG)\<rparr>
        in if \<not> set_ok then (TFB_KB_MODE_SET_FAILED, k1)
           else (TFB_SUCCESS, k1\<lparr>tty_termios := t2, tfb_kb_raw_mode := True\<rparr>))"

definition tfb_restore_kb_mode :: "bool \<Rightarrow> kb_state \<Rightarrow> tfb_ret \<times> kb_state" where
  "tfb_restore_kb_mode set_ok k =
     (if \<not> tfb_kb_raw_mode k then (TFB_KB_WRONG_MODE, k)
      else if \<not> set_ok then (TFB_KB_MODE_SET_FAILED, k)
      else (TFB_SUCCESS, k\<lparr>tty_termios := orig_termios k, tfb_kb_raw_mode := False\<rparr>))"

text \<open>
  The controller when the program starts: both static variables are zero-initialised,
  and the terminal has some attributes \<open>tty\<close>.
\<close>

definition zero_termios :: termios where
  "zero_termios =
     \<lparr>c_iflag = 0, c_oflag = 0, c_cflag = 0, c_lflag = 0, c_line = 0, c_cc = replicate 32 0,
      c_ispeed = 0, c_ospeed = 0\<rparr>"

definition kb_initial :: "termios \<Rightarrow> kb_state" where
  "kb_initial tty = \<lparr>tfb_kb_raw_mode = False, orig_termios = zero_termios, tty_termios = tty\<rparr>"

section \<open>Keypress decoder\<close>

text \<open>
  Standard input is the list of the outcomes of the successive calls
  \<^verbatim>\<open>read(0, &c, 1)\<close>: \<open>Some b\<close> is a call that returned 1 and stored the byte
  \<open>b\<close>, \<open>None\<close> is a call that returned 0 or less (end of input or an error).
  Once the list is exhausted every further call returns end of input.
\<close>

type_synonym rd = "byte option"

text \<open>
  The byte is stored in a variable of type \<^verbatim>\<open>char\<close>. Whether plain \<^verbatim>\<open>char\<close> is
  signed is fixed by the target's ABI (signed on x86 Linux, unsigned on ARM Linux),
  so it is a parameter \<open>sc\<close> of the decoder: \<open>char_val sc c\<close> is the value of the
  \<^verbatim>\<open>char\<close> holding the byte \<open>c\<close>, as every comparison and conversion of the source
  sees it.
\<close>

definition char_val :: "bool \<Rightarrow> byte \<Rightarrow> int" where
  "char_val sc c = (if sc then sint c else uint c)"

text \<open>
  \<^verbatim>\<open>*(uint64_t *)buf\<close>: the eight bytes of the buffer read as one 64-bit integer in
  the byte order of the target, little-endian, the first byte being the least
  significant.
\<close>

definition load_u64 :: "byte list \<Rightarrow> u64" where
  "load_u64 bs = foldr (\<lambda>b acc. ucast b OR push_bit 8 acc) bs 0"

text \<open>The loop's exit test \<^verbatim>\<open>0x40 <= c && c <= 0x7E && c != '['\<close>.\<close>

definition is_final :: "bool \<Rightarrow> byte \<Rightarrow> bool" where
  "is_final sc c \<longleftrightarrow> 0x40 \<le> char_val sc c \<and> char_val sc c \<le> 0x7E \<and> char_val sc c \<noteq> 0x5B"

text \<open>
  The \<^verbatim>\<open>while (1)\<close> loop of \<^verbatim>\<open>read_esc_seq\<close>, on the buffer, the number \<open>len\<close> of
  bytes stored so far and the remaining input. It returns the key code and the input
  left unread. The loop is entered with \<open>len = 2\<close> and left as soon as \<open>len\<close>
  reaches 8, so every store is inside the 8-byte buffer.
\<close>

fun esc_loop :: "bool \<Rightarrow> byte list \<Rightarrow> nat \<Rightarrow> rd list \<Rightarrow> u64 \<times> rd list" where
  "esc_loop sc buf len [] = (0, [])"
| "esc_loop sc buf len (None # inp) = (0, inp)"
| "esc_loop sc buf len (Some c # inp) =
     (let buf' = buf[len := c]; len' = len + 1 in
      if is_final sc c then (load_u64 buf', inp)
      else if len' = 8 then (0, inp)
      else esc_loop sc buf' len' inp)"

fun read_esc_seq :: "bool \<Rightarrow> rd list \<Rightarrow> u64 \<times> rd list" where
  "read_esc_seq sc [] = (0, [])"
| "read_esc_seq sc (None # inp) = (0, inp)"
| "read_esc_seq sc (Some c # inp) =
     (let buf = (replicate 8 0)[0 := 0x1B] in
      if char_val sc c \<noteq> 0x5B then (0, inp)
      else esc_loop sc (buf[1 := c]) 2 inp)"

fun tfb_read_keypress :: "bool \<Rightarrow> rd list \<Rightarrow> u64 \<times> rd list" where
  "tfb_read_keypress sc [] = (0, [])"
| "tfb_read_keypress sc (None # inp) = (0, inp)"
| "tfb_read_keypress sc (Some c # inp) =
     (if char_val sc c \<noteq> 0x1B then (word_of_int (char_val sc c), inp)
      else read_esc_seq sc inp)"

text \<open>The table of the twelve function-key sequences, F1 to F12.\<close>

definition tfb_fn_key_seq_char :: "byte list list" where
  "tfb_fn_key_seq_char =
     [[0x1B, 0x5B, 0x5B, 0x41, 0, 0, 0, 0],
      [0x1B, 0x5B, 0x5B, 0x42, 0, 0, 0, 0],
      [0x1B, 0x5B, 0x5B, 0x43, 0, 0, 0, 0],
      [0x1B, 0x5B, 0x5B, 0x44, 0, 0, 0, 0],
      [0x1B, 0x5B, 0x5B, 0x45, 0, 0, 0, 0],
      [0x1B, 0x5B, 0x31, 0x37, 0x7E, 0, 0, 0],
      [0x1B, 0x5B, 0x31, 0x38, 0x7E, 0, 0, 0],
      [0x1B, 0x5B, 0x31, 0x39, 0x7E, 0, 0, 0],
      [0x1B, 0x5B, 0x32, 0x30, 0x7E, 0, 0, 0],
      [0x1B, 0x5B, 0x32, 0x31, 0x7E, 0, 0, 0],
      [0x1B, 0x5B, 0x32, 0x33, 0x7E, 0, 0, 0],
      [0x1B, 0x5B, 0x32, 0x34, 0x7E, 0, 0, 0]]"

definition tfb_fn_key_sequences :: "u64 list" where
  "tfb_fn_key_sequences = map load_u64 tfb_fn_key_seq_char"

text \<open>The search loop of \<^verbatim>\<open>tfb_get_fn_key_num\<close>, from index \<open>i\<close> on.\<close>

function fn_key_search :: "nat \<Rightarrow> u64 \<Rightarrow> int" where
  "fn_key_search i k =
     (if i < 12 then
        (if tfb_fn_key_sequences ! i = k then int i + 1 else fn_key_search (i + 1) k)
      else 0)"
  by pat_completeness auto
termination
  by (relation "measure (\<lambda>(i, k). 12 - i)") auto

declare fn_key_search.simps [simp del]

definition tfb_get_fn_key_num :: "u64 \<Rightarrow> int" where
  "tfb_get_fn_key_num k = fn_key_search 0 k"

text \<open>
  The byte stream a terminal sends for the \<open>i\<close>-th table entry: the entry without
  its zero padding.
\<close>

definition fn_key_stream :: "nat \<Rightarrow> byte list" where
  "fn_key_stream i = takeWhile (\<lambda>b. b \<noteq> 0) (tfb_fn_key_seq_char ! i)"


section \<open>Concrete inputs\<close>

text \<open>
  A 640 x 480 session at 32 bits per pixel (stride 2560 bytes) with a shadow buffer,
  the full screen as its window; used to evaluate the operations on concrete input.
\<close>

definition vga_session :: fb_session where
  "vga_session =
     \<lparr>fbi_xoffset = 0, fbi_yoffset = 0, fb_screen_w = 640, fb_screen_h = 480,
      fb_off_x = 0, fb_off_y = 0, fb_win_w = 640, fb_win_h = 480,
      fb_win_end_x = 640, fb_win_end_y = 480,
      fb_buffer = 8388608, fb_real_buffer = 4194304, fb_size = 1228800,
      fb_pitch = 2560, fb_pitch_div4 = 640, fbfd = 3, ttyfd = 4\<rparr>"

text \<open>
  A shadow-buffer session on a 4 x 3 screen with a 16-byte stride, the mapped region at
  address 100, the shadow buffer at address 200, and a 2 x 1 window at (1, 1).
\<close>

definition tiny_session :: fb_session where
  "tiny_session =
     \<lparr>fbi_xoffset = 0, fbi_yoffset = 0, fb_screen_w = 4, fb_screen_h = 3,
      fb_off_x = 1, fb_off_y = 1, fb_win_w = 2, fb_win_h = 1,
      fb_win_end_x = 3, fb_win_end_y = 2,
      fb_buffer = 200, fb_real_buffer = 100, fb_size = 48,
      fb_pitch = 16, fb_pitch_div4 = 4, fbfd = 3, ttyfd = 4\<rparr>"

text \<open>
  The same session on a device that reports the base offset (1, 0), as
  \<^verbatim>\<open>tfb_acquire_fb\<close> leaves \<^verbatim>\<open>__fbi\<close> after a horizontal pan by one pixel.
\<close>

definition panned_session :: fb_session where
  "panned_session = tiny_session\<lparr>fbi_xoffset := 1\<rparr>"

text \<open>A store holding 0xAA in the mapped region of \<open>tiny_session\<close> and 0x55 elsewhere.\<close>

definition tiny_mem :: mem where
  "tiny_mem = (\<lambda>a. if 100 \<le> a \<and> a < 148 then 0xAA else 0x55)"

text \<open>Terminal attributes of a terminal in canonical mode with echo.\<close>

definition cooked_termios :: termios where
  "cooked_termios =
     \<lparr>c_iflag = 0x500, c_oflag = 0x5, c_cflag = 0xBF, c_lflag = 0x8A3B, c_line = 0,
      c_cc = replicate 32 0, c_ispeed = 0xF, c_ospeed = 0xF\<rparr>"

section \<open>Properties of the viewport controller\<close>

lemma u32_sum_no_wrap:
  fixes x w b :: u32
  assumes "unat x + unat w \<le> unat b"
  shows "unat (x + w) = unat x + unat w"
proof -
  have "unat b < 2 ^ 32"
    using unsigned_less [of b, where ?'a = nat] by simp
  with assms have "unat x + unat w < 2 ^ LENGTH(32)"
    by simp
  then show ?thesis
    by (simp only: unat_add_lem)
qed

lemma u32_sum_within:
  fixes x w b :: u32
  assumes "unat x + unat w \<le> unat b"
  shows "\<not> b < x + w"
  using assms u32_sum_no_wrap [OF assms] by (simp add: word_less_nat_alt)

text \<open>
  C5. For every (x, y, w, h) with x + w within the screen width and y + h within the
  screen height (the sums taken as numbers), \<open>tfb_set_window\<close> returns success and
  the new state is the old one with exactly the six window fields replaced: the
  offset is the device base offset plus (x, y), the size is (w, h), and the end
  coordinates are offset plus size. The stored sums are 32-bit values.
\<close>

theorem set_window_valid_stores_window:
  assumes "unat x + unat w \<le> unat (fb_screen_w s)"
    and "unat y + unat h \<le> unat (fb_screen_h s)"
  shows "fst (tfb_set_window x y w h s) = TFB_SUCCESS
    \<and> snd (tfb_set_window x y w h s) =
        s\<lparr>fb_off_x := fbi_xoffset s + x, fb_off_y := fbi_yoffset s + y,
          fb_win_w := w, fb_win_h := h,
          fb_win_end_x := (fbi_xoffset s + x) + w,
          fb_win_end_y := (fbi_yoffset s + y) + h\<rparr>
    \<and> fb_win_end_x (snd (tfb_set_window x y w h s)) =
        fb_off_x (snd (tfb_set_window x y w h s)) + fb_win_w (snd (tfb_set_window x y w h s))
    \<and> fb_win_end_y (snd (tfb_set_window x y w h s)) =
        fb_off_y (snd (tfb_set_window x y w h s)) + fb_win_h (snd (tfb_set_window x y w h s))"
proof -
  have "\<not> fb_screen_w s < x + w" and "\<not> fb_screen_h s < y + h"
    using assms by (simp_all add: u32_sum_within)
  then show ?thesis
    by (simp add: tfb_set_window_def Let_def)
qed

theorem set_window_valid_stores_window_witness:
  "fst (tfb_set_window 10 20 300 200 vga_session) = TFB_SUCCESS
   \<and> fb_off_x (snd (tfb_set_window 10 20 300 200 vga_session)) = 10
   \<and> fb_off_y (snd (tfb_set_window 10 20 300 200 vga_session)) = 20
   \<and> fb_win_w (snd (tfb_set_window 10 20 300 200 vga_session)) = 300
   \<and> fb_win_h (snd (tfb_set_window 10 20 300 200 vga_session)) = 200
   \<and> fb_win_end_x (snd (tfb_set_window 10 20 300 200 vga_session)) = 310
   \<and> fb_win_end_y (snd (tfb_set_window 10 20 300 200 vga_session)) = 220"
proof -
  have wx: "unat (10 :: u32) + unat (300 :: u32) \<le> unat (fb_screen_w vga_session)"
    by (simp add: vga_session_def)
  have wy: "unat (20 :: u32) + unat (200 :: u32) \<le> unat (fb_screen_h vga_session)"
    by (simp add: vga_session_def)
  show ?thesis
    using set_window_valid_stores_window [OF wx wy] by (simp add: vga_session_def)
qed

text \<open>
  When neither sum wraps around, a window that exceeds the screen in either direction
  is rejected and the state is returned as it was.
\<close>

lemma set_window_rejects_without_wrap:
  assumes "unat x + unat w < 2 ^ 32" and "unat y + unat h < 2 ^ 32"
    and "unat x + unat w > unat (fb_screen_w s) \<or> unat y + unat h > unat (fb_screen_h s)"
  shows "tfb_set_window x y w h s = (TFB_INVALID_WINDOW, s)"
proof -
  have "unat (x + w) = unat x + unat w" and "unat (y + h) = unat y + unat h"
    using assms(1,2) by (simp_all add: unat_add_lem [THEN iffD1])
  with assms(3) have "fb_screen_w s < x + w \<or> fb_screen_h s < y + h"
    by (simp add: word_less_nat_alt)
  then show ?thesis
    by (auto simp: tfb_set_window_def)
qed

text \<open>
  C2. The spec states that every (x, y, w, h) with x + w beyond the screen width is
  rejected with the window left unchanged. At x = 4294967295, w = 1 on a screen 640
  pixels wide the sum is 4294967296, yet the 32-bit sum the code compares is 0: the
  call succeeds and replaces the window, whose horizontal offset becomes 4294967295.
\<close>

theorem set_window_wrapped_sum_accepted:
  "unat (4294967295 :: u32) + unat (1 :: u32) > unat (fb_screen_w vga_session)
   \<and> fst (tfb_set_window 4294967295 0 1 0 vga_session) = TFB_SUCCESS
   \<and> snd (tfb_set_window 4294967295 0 1 0 vga_session) \<noteq> vga_session
   \<and> fb_off_x (snd (tfb_set_window 4294967295 0 1 0 vga_session)) = 4294967295
   \<and> fb_win_w (snd (tfb_set_window 4294967295 0 1 0 vga_session)) = 1
   \<and> fb_win_end_x (snd (tfb_set_window 4294967295 0 1 0 vga_session)) = 0"
  by (simp add: tfb_set_window_def vga_session_def)

section \<open>Properties of the keypress decoder\<close>

subsection \<open>The 64-bit load\<close>

lemma load_u64_Nil: "load_u64 [] = 0"
  by (simp add: load_u64_def)

lemma load_u64_Cons: "load_u64 (b # bs) = ucast b OR push_bit 8 (load_u64 bs)"
  by (simp add: load_u64_def)

text \<open>Bit \<open>n\<close> of the loaded integer is bit \<open>n mod 8\<close> of byte \<open>n div 8\<close>.\<close>

lemma bit_load_u64:
  "bit (load_u64 bs) n \<longleftrightarrow> n < 64 \<and> n div 8 < length bs \<and> bit (bs ! (n div 8)) (n mod 8)"
proof (induction bs arbitrary: n)
  case Nil
  show ?case by (simp add: load_u64_Nil)
next
  case (Cons b bs)
  show ?case
  proof (cases "n < 8")
    case True
    then show ?thesis
      by (simp add: load_u64_Cons bit_simps Cons.IH)
  next
    case False
    then obtain m where n: "n = m + 8"
      by (metis add.commute le_Suc_ex not_less)
    have d: "(m + 8) div 8 = Suc (m div 8)" and r: "(m + 8) mod 8 = m mod 8"
      by simp_all
    show ?thesis
      unfolding n d r
      by (simp add: load_u64_Cons bit_simps Cons.IH)
        (auto simp: bit_simps dest: bit_imp_le_length)
  qed
qed

text \<open>Little-endian: byte \<open>i\<close> of the integer, counted from the low end, is \<open>bs ! i\<close>.\<close>

lemma load_u64_byte:
  assumes "i < length bs" and "i < 8"
  shows "ucast (drop_bit (8 * i) (load_u64 bs)) = bs ! i"
proof (rule bit_word_eqI)
  fix k assume "k < LENGTH(8)"
  then have k: "k < 8" by simp
  have "(8 * i + k) div 8 = i" "(8 * i + k) mod 8 = k"
    using k by simp_all
  moreover have "8 * i + k < 64"
    using k assms(2) by simp
  ultimately show "bit (ucast (drop_bit (8 * i) (load_u64 bs)) :: byte) k = bit (bs ! i) k"
    using assms k by (simp add: bit_simps bit_load_u64)
qed

lemma load_u64_nonzero:
  assumes "b \<noteq> 0"
  shows "load_u64 (b # bs) \<noteq> 0"
proof
  assume z: "load_u64 (b # bs) = 0"
  have "ucast (drop_bit (8 * 0) (load_u64 (b # bs))) = (b # bs) ! 0"
    by (rule load_u64_byte) simp_all
  with z assms show False by simp
qed

subsection \<open>The assembly loop\<close>

lemma zero_buffer: "replicate 8 (0 :: byte) = [0, 0, 0, 0, 0, 0, 0, 0]"
  by (simp add: eval_nat_numeral)

lemma char_val_esc [simp]: "char_val sc 0x1B = 0x1B"
  by (simp add: char_val_def)

lemma char_val_bracket [simp]: "char_val sc 0x5B = 0x5B"
  by (simp add: char_val_def)

text \<open>
  Bytes that do not end the sequence, then a final byte, all within the buffer: the
  loop stores them from index \<open>len\<close> on and returns the buffer as an integer.
\<close>

lemma esc_loop_accept:
  assumes "\<forall>b\<in>set bs. \<not> is_final sc b" and "is_final sc t"
    and "len + length bs < 8" and "length buf = 8"
  shows "esc_loop sc buf len (map Some bs @ Some t # rest) =
           (load_u64 (take len buf @ bs @ t # drop (len + length bs + 1) buf), rest)"
  using assms
proof (induction bs arbitrary: buf len)
  case Nil
  then show ?case
    by (simp add: upd_conv_take_nth_drop)
next
  case (Cons b bs)
  have step: "esc_loop sc buf len (map Some (b # bs) @ Some t # rest) =
          esc_loop sc (buf[len := b]) (len + 1) (map Some bs @ Some t # rest)"
    using Cons.prems by simp
  have "esc_loop sc (buf[len := b]) (len + 1) (map Some bs @ Some t # rest) =
          (load_u64 (take (len + 1) (buf[len := b]) @ bs @
             t # drop (len + 1 + length bs + 1) (buf[len := b])), rest)"
    using Cons.prems by (intro Cons.IH) simp_all
  moreover have "take (len + 1) (buf[len := b]) = take len buf @ [b]"
    using Cons.prems by (simp add: take_Suc_conv_app_nth)
  moreover have "drop (len + 1 + length bs + 1) (buf[len := b]) =
      drop (len + length (b # bs) + 1) buf"
    by simp
  ultimately show ?case
    using step by simp
qed

text \<open>Bytes that do not end the sequence and fill the buffer: the result is 0.\<close>

lemma esc_loop_too_long:
  assumes "\<forall>b\<in>set bs. \<not> is_final sc b" and "len + length bs = 8" and "len < 8"
  shows "esc_loop sc buf len (map Some bs @ rest) = (0, rest)"
  using assms
proof (induction bs arbitrary: buf len)
  case Nil
  then show ?case by simp
next
  case (Cons b bs)
  show ?case
  proof (cases "len + 1 = 8")
    case True
    with Cons.prems show ?thesis by simp
  next
    case False
    with Cons.prems have "esc_loop sc (buf[len := b]) (len + 1) (map Some bs @ rest) = (0, rest)"
      by (intro Cons.IH) simp_all
    with False Cons.prems show ?thesis by simp
  qed
qed

text \<open>
  The whole decoder on ESC, \<open>[\<close>, at most five bytes that do not end the sequence
  and a final byte: the key code is the buffer holding these bytes, zero-padded to
  eight.
\<close>

lemma read_keypress_sequence:
  assumes "\<forall>b\<in>set bs. \<not> is_final sc b" and "is_final sc t" and "length bs \<le> 5"
  shows "tfb_read_keypress sc (map Some ([0x1B, 0x5B] @ bs @ [t]) @ rest) =
           (load_u64 ([0x1B, 0x5B] @ bs @ [t] @ replicate (5 - length bs) 0), rest)"
proof -
  let ?buf = "[0x1B, 0x5B, 0, 0, 0, 0, 0, 0] :: byte list"
  have "tfb_read_keypress sc (map Some ([0x1B, 0x5B] @ bs @ [t]) @ rest) =
          esc_loop sc ?buf 2 (map Some bs @ Some t # rest)"
    by (simp add: zero_buffer)
  also have "\<dots> = (load_u64 (take 2 ?buf @ bs @ t # drop (2 + length bs + 1) ?buf), rest)"
    using assms by (intro esc_loop_accept) simp_all
  also have "take 2 ?buf = [0x1B, 0x5B]"
    by (simp add: eval_nat_numeral)
  also have "drop (2 + length bs + 1) ?buf = replicate (5 - length bs) 0"
  proof -
    have "drop (2 + length bs + 1) ?buf = drop (length bs) (replicate 5 0)"
      by (simp add: eval_nat_numeral)
    then show ?thesis by simp
  qed
  finally show ?thesis by simp
qed

subsection \<open>Single bytes\<close>

lemma char_val_ascii:
  assumes "c < 0x80"
  shows "char_val sc c = uint c"
proof -
  have lt: "uint c < 128"
    using assms by (simp add: word_less_def)
  have "sint c = signed_take_bit 7 (uint c)"
    by (simp add: sint_uint)
  also have "\<dots> = uint c"
  proof (rule signed_take_bit_int_eq_self)
    show "- (2 ^ 7) \<le> uint c"
      by (rule order_trans [of _ 0]) simp_all
    show "uint c < 2 ^ 7" using lt by simp
  qed
  finally show ?thesis
    by (simp add: char_val_def)
qed

lemma uint_not_esc:
  fixes c :: byte
  assumes "c \<noteq> 0x1B"
  shows "uint c \<noteq> 0x1B"
  using assms by (simp add: word_uint_eq_iff)

lemma read_keypress_plain_unsigned:
  assumes "c \<noteq> 0x1B"
  shows "tfb_read_keypress False (Some c # rest) = (ucast c, rest)"
  using uint_not_esc [OF assms] by (simp add: char_val_def)

lemma read_keypress_plain_ascii:
  assumes "c \<noteq> 0x1B" and "c < 0x80"
  shows "tfb_read_keypress sc (Some c # rest) = (ucast c, rest)"
  using uint_not_esc [OF assms(1)] by (simp add: char_val_ascii [OF assms(2)])

text \<open>
  C3. The spec states that every byte other than 0x1B is returned zero-extended, a value
  in 0..255. Where plain \<^verbatim>\<open>char\<close> is signed, the byte 0x80 is the \<^verbatim>\<open>char\<close> value
  -128, and \<^verbatim>\<open>return c\<close> converts it to the 64-bit result by sign extension:
  the call returns 18446744073709551488, not 128. Bytes below 0x80 (such as 0x41,
  returned as 65) and every byte where \<^verbatim>\<open>char\<close> is unsigned are returned as the
  spec says (lemmas \<open>read_keypress_plain_ascii\<close>, \<open>read_keypress_plain_unsigned\<close>).
\<close>

theorem read_keypress_sign_extends:
  "fst (tfb_read_keypress True [Some 0x80]) = 0xFFFFFFFFFFFFFF80
   \<and> unat (fst (tfb_read_keypress True [Some 0x80])) = 18446744073709551488
   \<and> fst (tfb_read_keypress True [Some 0x80]) \<noteq> ucast (0x80 :: byte)
   \<and> \<not> unat (fst (tfb_read_keypress True [Some 0x80])) \<le> 255
   \<and> fst (tfb_read_keypress True [Some 0x41]) = 65
   \<and> fst (tfb_read_keypress False [Some 0x80]) = 0x80"
  by (simp add: char_val_def)

subsection \<open>Escape sequences\<close>

text \<open>
  C6. On the input ESC, \<open>[\<close>, \<open>A\<close> (cursor up) the decoder returns 0x415B1B, the
  little-endian packing of these three bytes and five zero bytes. In general, on ESC,
  \<open>[\<close>, up to five bytes that do not end the sequence and a final byte, it returns
  the 8-byte buffer (the bytes read, then zeros) as one 64-bit integer, leaving the
  rest of the input unread; that integer is not 0 and its \<open>i\<close>-th byte from the low
  end is the \<open>i\<close>-th byte of the buffer.
\<close>

theorem read_keypress_escape_sequence_le:
  "(\<forall>sc rest. tfb_read_keypress sc (map Some [0x1B, 0x5B, 0x41] @ rest) = (0x415B1B, rest))
   \<and> load_u64 [0x1B, 0x5B, 0x41, 0, 0, 0, 0, 0] = 0x415B1B
   \<and> (\<forall>sc bs t rest. (\<forall>b\<in>set bs. \<not> is_final sc b) \<and> is_final sc t \<and> length bs \<le> 5 \<longrightarrow>
         tfb_read_keypress sc (map Some ([0x1B, 0x5B] @ bs @ [t]) @ rest) =
           (load_u64 ([0x1B, 0x5B] @ bs @ [t] @ replicate (5 - length bs) 0), rest)
         \<and> load_u64 ([0x1B, 0x5B] @ bs @ [t] @ replicate (5 - length bs) 0) \<noteq> 0
         \<and> (\<forall>i<8. ucast (drop_bit (8 * i) (load_u64 ([0x1B, 0x5B] @ bs @ [t] @ replicate (5 - length bs) 0)))
                = ([0x1B, 0x5B] @ bs @ [t] @ replicate (5 - length bs) 0) ! i))"
proof (intro conjI allI impI)
  fix sc rest
  show "tfb_read_keypress sc (map Some [0x1B, 0x5B, 0x41] @ rest) = (0x415B1B, rest)"
    by (simp add: zero_buffer is_final_def char_val_def load_u64_def)
next
  show "load_u64 [0x1B, 0x5B, 0x41, 0, 0, 0, 0, 0] = 0x415B1B"
    by (simp add: load_u64_def)
next
  fix sc bs t rest
  assume h: "(\<forall>b\<in>set bs. \<not> is_final sc b) \<and> is_final sc t \<and> length bs \<le> 5"
  then show "tfb_read_keypress sc (map Some ([0x1B, 0x5B] @ bs @ [t]) @ rest) =
           (load_u64 ([0x1B, 0x5B] @ bs @ [t] @ replicate (5 - length bs) 0), rest)"
    by (intro read_keypress_sequence) simp_all
next
  fix sc bs t rest
  show "load_u64 ([0x1B, 0x5B] @ bs @ [t] @ replicate (5 - length bs) 0) \<noteq> 0"
    using load_u64_nonzero [of "0x1B" "[0x5B] @ bs @ [t] @ replicate (5 - length bs) 0"] by simp
next
  fix sc :: bool and bs :: "byte list" and t :: byte and rest :: "rd list" and i :: nat
  assume h: "(\<forall>b\<in>set bs. \<not> is_final sc b) \<and> is_final sc t \<and> length bs \<le> 5" and i: "i < 8"
  show "ucast (drop_bit (8 * i) (load_u64 ([0x1B, 0x5B] @ bs @ [t] @ replicate (5 - length bs) 0)))
                = ([0x1B, 0x5B] @ bs @ [t] @ replicate (5 - length bs) 0) ! i"
    using h i by (intro load_u64_byte) simp_all
qed

theorem read_keypress_escape_sequence_le_witness:
  "\<forall>sc. \<not> is_final sc 0x35 \<and> is_final sc 0x7E
     \<and> tfb_read_keypress sc (map Some [0x1B, 0x5B, 0x35, 0x7E]) = (0x7E355B1B, [])"
proof
  fix sc
  note gen = read_keypress_escape_sequence_le [THEN conjunct2, THEN conjunct2, rule_format]
  have nf: "\<not> is_final sc 0x35" and f: "is_final sc 0x7E"
    by (simp_all add: is_final_def char_val_def)
  have "tfb_read_keypress sc (map Some ([0x1B, 0x5B] @ [0x35] @ [0x7E]) @ []) =
           (load_u64 ([0x1B, 0x5B] @ [0x35] @ [0x7E] @ replicate (5 - length [0x35 :: byte]) 0), [])"
    by (rule gen [THEN conjunct1]) (simp add: nf f)
  moreover have "replicate (5 - length [0x35 :: byte]) (0 :: byte) = [0, 0, 0, 0]"
    by (simp add: eval_nat_numeral)
  then have "load_u64 ([0x1B, 0x5B] @ [0x35] @ [0x7E] @ replicate (5 - length [0x35 :: byte]) 0)
      = 0x7E355B1B"
    by (simp add: load_u64_def)
  moreover have "map Some ([0x1B, 0x5B] @ [0x35] @ [0x7E]) @ [] = (map Some [0x1B, 0x5B, 0x35, 0x7E] :: rd list)"
    by simp
  ultimately have "tfb_read_keypress sc (map Some [0x1B, 0x5B, 0x35, 0x7E]) = (0x7E355B1B, [])"
    by (simp only:)
  with nf f show "\<not> is_final sc 0x35 \<and> is_final sc 0x7E
     \<and> tfb_read_keypress sc (map Some [0x1B, 0x5B, 0x35, 0x7E]) = (0x7E355B1B, [])"
    by (simp only: simp_thms)
qed

lemma read_keypress_too_long:
  assumes "\<forall>b\<in>set bs. \<not> is_final sc b" and "length bs = 6"
  shows "tfb_read_keypress sc (map Some ([0x1B, 0x5B] @ bs) @ rest) = (0, rest)"
proof -
  have "tfb_read_keypress sc (map Some ([0x1B, 0x5B] @ bs) @ rest) =
          esc_loop sc [0x1B, 0x5B, 0, 0, 0, 0, 0, 0] 2 (map Some bs @ rest)"
    by (simp add: zero_buffer)
  also have "\<dots> = (0, rest)"
    using assms by (intro esc_loop_too_long) simp_all
  finally show ?thesis .
qed

lemma read_keypress_final_nonzero:
  assumes "\<exists>b\<in>set bs. is_final sc b" and "length bs \<le> 6"
  shows "fst (tfb_read_keypress sc (map Some ([0x1B, 0x5B] @ bs) @ rest)) \<noteq> 0"
proof -
  from assms(1) obtain ys x zs where bs: "bs = ys @ x # zs" and x: "is_final sc x"
    and ys: "\<forall>y\<in>set ys. \<not> is_final sc y"
    using split_list_first_prop [of bs "is_final sc"] by blast
  have len: "length ys \<le> 5"
    using assms(2) bs by simp
  have "map Some ([0x1B, 0x5B] @ bs) @ rest = map Some ([0x1B, 0x5B] @ ys @ [x]) @ (map Some zs @ rest)"
    by (simp add: bs)
  then have "tfb_read_keypress sc (map Some ([0x1B, 0x5B] @ bs) @ rest) =
      (load_u64 ([0x1B, 0x5B] @ ys @ [x] @ replicate (5 - length ys) 0), map Some zs @ rest)"
    using read_keypress_sequence [OF ys x len] by (simp only:)
  then show ?thesis
    using load_u64_nonzero [of "0x1B" "[0x5B] @ ys @ [x] @ replicate (5 - length ys) 0"] by simp
qed

text \<open>
  C8. An escape sequence of exactly eight bytes (ESC, \<open>[\<close>, five bytes that do not
  end the sequence, and a final byte in 0x40..0x7E other than \<open>[\<close>) is accepted:
  the key code is the full 8-byte buffer, it is not 0, and its top byte is the final
  byte. After ESC and \<open>[\<close>, six further bytes give the result 0 exactly when none
  of the six is a final byte, that is, when eight bytes have accumulated without one.
\<close>

theorem esc_seq_eighth_byte_final_accepted:
  "(\<forall>sc bs t rest. length bs = 5 \<and> (\<forall>b\<in>set bs. \<not> is_final sc b) \<and> is_final sc t \<longrightarrow>
       tfb_read_keypress sc (map Some ([0x1B, 0x5B] @ bs @ [t]) @ rest) =
         (load_u64 ([0x1B, 0x5B] @ bs @ [t]), rest)
       \<and> load_u64 ([0x1B, 0x5B] @ bs @ [t]) \<noteq> 0
       \<and> ucast (drop_bit 56 (load_u64 ([0x1B, 0x5B] @ bs @ [t]))) = t)
   \<and> (\<forall>sc bs rest. length bs = 6 \<longrightarrow>
       (fst (tfb_read_keypress sc (map Some ([0x1B, 0x5B] @ bs) @ rest)) = 0
          \<longleftrightarrow> (\<forall>b\<in>set bs. \<not> is_final sc b)))"
proof (intro conjI allI impI)
  fix sc bs t rest
  assume h: "length bs = 5 \<and> (\<forall>b\<in>set bs. \<not> is_final sc b) \<and> is_final sc t"
  then have "tfb_read_keypress sc (map Some ([0x1B, 0x5B] @ bs @ [t]) @ rest) =
         (load_u64 ([0x1B, 0x5B] @ bs @ [t] @ replicate (5 - length bs) 0), rest)"
    by (intro read_keypress_sequence) simp_all
  with h show "tfb_read_keypress sc (map Some ([0x1B, 0x5B] @ bs @ [t]) @ rest) =
         (load_u64 ([0x1B, 0x5B] @ bs @ [t]), rest)"
    by simp
next
  fix sc :: bool and bs :: "byte list" and t :: byte
  show "load_u64 ([0x1B, 0x5B] @ bs @ [t]) \<noteq> 0"
    using load_u64_nonzero [of "0x1B" "[0x5B] @ bs @ [t]"] by simp
next
  fix sc :: bool and bs :: "byte list" and t :: byte
  assume h: "length bs = 5 \<and> (\<forall>b\<in>set bs. \<not> is_final sc b) \<and> is_final sc t"
  have "ucast (drop_bit (8 * 7) (load_u64 ([0x1B, 0x5B] @ bs @ [t]))) = ([0x1B, 0x5B] @ bs @ [t]) ! 7"
    using h by (intro load_u64_byte) simp_all
  moreover have "([0x1B, 0x5B] @ bs @ [t]) ! 7 = t"
    using h by (simp add: nth_append eval_nat_numeral)
  ultimately show "ucast (drop_bit 56 (load_u64 ([0x1B, 0x5B] @ bs @ [t]))) = t"
    by simp
next
  fix sc :: bool and bs :: "byte list" and rest :: "rd list"
  assume len: "length bs = 6"
  show "fst (tfb_read_keypress sc (map Some ([0x1B, 0x5B] @ bs) @ rest)) = 0
          \<longleftrightarrow> (\<forall>b\<in>set bs. \<not> is_final sc b)"
  proof
    assume z: "fst (tfb_read_keypress sc (map Some ([0x1B, 0x5B] @ bs) @ rest)) = 0"
    show "\<forall>b\<in>set bs. \<not> is_final sc b"
    proof (rule ccontr)
      assume "\<not> (\<forall>b\<in>set bs. \<not> is_final sc b)"
      then have "\<exists>b\<in>set bs. is_final sc b" by simp
      then have "fst (tfb_read_keypress sc (map Some ([0x1B, 0x5B] @ bs) @ rest)) \<noteq> 0"
        using len by (intro read_keypress_final_nonzero) simp_all
      with z show False by simp
    qed
  next
    assume "\<forall>b\<in>set bs. \<not> is_final sc b"
    then show "fst (tfb_read_keypress sc (map Some ([0x1B, 0x5B] @ bs) @ rest)) = 0"
      using len by (simp only: read_keypress_too_long fst_conv)
  qed
qed


theorem esc_seq_eighth_byte_final_accepted_witness:
  "\<forall>sc. \<not> is_final sc 0x31 \<and> \<not> is_final sc 0x32 \<and> \<not> is_final sc 0x33
     \<and> \<not> is_final sc 0x34 \<and> \<not> is_final sc 0x35 \<and> is_final sc 0x7E
     \<and> tfb_read_keypress sc (map Some [0x1B, 0x5B, 0x31, 0x32, 0x33, 0x34, 0x35, 0x7E]) =
           (0x7E35343332315B1B, [])"
proof
  fix sc
  note acc = esc_seq_eighth_byte_final_accepted [THEN conjunct1, rule_format]
  have nf: "\<not> is_final sc 0x31" "\<not> is_final sc 0x32" "\<not> is_final sc 0x33"
      "\<not> is_final sc 0x34" "\<not> is_final sc 0x35"
    and f: "is_final sc 0x7E"
    by (simp_all add: is_final_def char_val_def)
  have "tfb_read_keypress sc (map Some ([0x1B, 0x5B] @ [0x31, 0x32, 0x33, 0x34, 0x35] @ [0x7E]) @ []) =
          (load_u64 ([0x1B, 0x5B] @ [0x31, 0x32, 0x33, 0x34, 0x35] @ [0x7E]), [])"
    by (rule acc [THEN conjunct1]) (simp add: nf f)
  moreover have "load_u64 ([0x1B, 0x5B] @ [0x31, 0x32, 0x33, 0x34, 0x35] @ [0x7E]) = 0x7E35343332315B1B"
    by (simp add: load_u64_def)
  moreover have "map Some ([0x1B, 0x5B] @ [0x31, 0x32, 0x33, 0x34, 0x35] @ [0x7E]) @ [] =
      (map Some [0x1B, 0x5B, 0x31, 0x32, 0x33, 0x34, 0x35, 0x7E] :: rd list)"
    by simp
  ultimately have "tfb_read_keypress sc (map Some [0x1B, 0x5B, 0x31, 0x32, 0x33, 0x34, 0x35, 0x7E]) =
           (0x7E35343332315B1B, [])"
    by (simp only:)
  with nf f show "\<not> is_final sc 0x31 \<and> \<not> is_final sc 0x32 \<and> \<not> is_final sc 0x33
     \<and> \<not> is_final sc 0x34 \<and> \<not> is_final sc 0x35 \<and> is_final sc 0x7E
     \<and> tfb_read_keypress sc (map Some [0x1B, 0x5B, 0x31, 0x32, 0x33, 0x34, 0x35, 0x7E]) =
           (0x7E35343332315B1B, [])"
    by (simp only: simp_thms)
qed

subsection \<open>The function-key table\<close>

lemma fn_key_codes:
  "tfb_fn_key_sequences =
     [0x415B5B1B, 0x425B5B1B, 0x435B5B1B, 0x445B5B1B, 0x455B5B1B,
      0x7E37315B1B, 0x7E38315B1B, 0x7E39315B1B, 0x7E30325B1B, 0x7E31325B1B,
      0x7E33325B1B, 0x7E34325B1B]"
  by (simp add: tfb_fn_key_sequences_def tfb_fn_key_seq_char_def load_u64_def)

lemma below_12:
  assumes "(i :: nat) < 12"
  shows "i = 0 \<or> i = 1 \<or> i = 2 \<or> i = 3 \<or> i = 4 \<or> i = 5 \<or> i = 6 \<or> i = 7 \<or> i = 8
    \<or> i = 9 \<or> i = 10 \<or> i = 11"
  using assms by arith

lemma fn_key_search_spec:
  "(fn_key_search i k = 0 \<and> (\<forall>j. i \<le> j \<and> j < 12 \<longrightarrow> tfb_fn_key_sequences ! j \<noteq> k))
   \<or> (\<exists>r. fn_key_search i k = int r + 1 \<and> i \<le> r \<and> r < 12 \<and> tfb_fn_key_sequences ! r = k
         \<and> (\<forall>j. i \<le> j \<and> j < r \<longrightarrow> tfb_fn_key_sequences ! j \<noteq> k))"
proof (induction i k rule: fn_key_search.induct)
  case (1 i k)
  show ?case
  proof (cases "i < 12")
    case False
    then have "fn_key_search i k = 0"
      by (simp add: fn_key_search.simps [of i k])
    moreover from False have "\<forall>j. i \<le> j \<and> j < 12 \<longrightarrow> tfb_fn_key_sequences ! j \<noteq> k"
      by auto
    ultimately show ?thesis by blast
  next
    case lt: True
    show ?thesis
    proof (cases "tfb_fn_key_sequences ! i = k")
      case True
      with lt have "fn_key_search i k = int i + 1"
        by (simp add: fn_key_search.simps [of i k])
      with lt True show ?thesis
        by auto
    next
      case False
      with lt have eq: "fn_key_search i k = fn_key_search (i + 1) k"
        by (simp add: fn_key_search.simps [of i k])
      from "1.IH" [OF lt False] show ?thesis
      proof
        assume a: "fn_key_search (i + 1) k = 0 \<and> (\<forall>j. i + 1 \<le> j \<and> j < 12 \<longrightarrow> tfb_fn_key_sequences ! j \<noteq> k)"
        have "\<forall>j. i \<le> j \<and> j < 12 \<longrightarrow> tfb_fn_key_sequences ! j \<noteq> k"
        proof (intro allI impI)
          fix j assume j: "i \<le> j \<and> j < 12"
          show "tfb_fn_key_sequences ! j \<noteq> k"
          proof (cases "j = i")
            case True with False show ?thesis by simp
          next
            case False with j a show ?thesis by simp
          qed
        qed
        with a eq show ?thesis by simp
      next
        assume "\<exists>r. fn_key_search (i + 1) k = int r + 1 \<and> i + 1 \<le> r \<and> r < 12 \<and> tfb_fn_key_sequences ! r = k
         \<and> (\<forall>j. i + 1 \<le> j \<and> j < r \<longrightarrow> tfb_fn_key_sequences ! j \<noteq> k)"
        then obtain r where r: "fn_key_search (i + 1) k = int r + 1" "i + 1 \<le> r" "r < 12"
          "tfb_fn_key_sequences ! r = k" "\<forall>j. i + 1 \<le> j \<and> j < r \<longrightarrow> tfb_fn_key_sequences ! j \<noteq> k"
          by blast
        have "\<forall>j. i \<le> j \<and> j < r \<longrightarrow> tfb_fn_key_sequences ! j \<noteq> k"
        proof (intro allI impI)
          fix j assume j: "i \<le> j \<and> j < r"
          show "tfb_fn_key_sequences ! j \<noteq> k"
          proof (cases "j = i")
            case True with False show ?thesis by simp
          next
            case False with j r(5) show ?thesis by simp
          qed
        qed
        with r eq have "fn_key_search i k = int r + 1 \<and> i \<le> r \<and> r < 12 \<and> tfb_fn_key_sequences ! r = k
         \<and> (\<forall>j. i \<le> j \<and> j < r \<longrightarrow> tfb_fn_key_sequences ! j \<noteq> k)"
          by simp
        then show ?thesis by blast
      qed
    qed
  qed
qed


lemma fn_key_stream_decodes:
  assumes "i < 12"
  shows "tfb_read_keypress sc (map Some (fn_key_stream i) @ rest) = (tfb_fn_key_sequences ! i, rest)"
  using below_12 [OF assms]
  by (elim disjE)
    (simp_all add: fn_key_codes fn_key_stream_def tfb_fn_key_seq_char_def zero_buffer
      is_final_def char_val_def load_u64_def)

lemma fn_key_num_of_entry:
  assumes "i < 12"
  shows "tfb_get_fn_key_num (tfb_fn_key_sequences ! i) = int i + 1"
  using below_12 [OF assms]
  by (elim disjE)
    (simp_all add: fn_key_codes tfb_get_fn_key_num_def fn_key_search.simps)

text \<open>
  C9. For each \<open>i\<close> from 1 to 12, decoding the byte stream of the \<open>i\<close>-th table entry
  (whatever input follows it) yields a key code that \<open>tfb_get_fn_key_num\<close> maps to
  \<open>i\<close>, and the decoder consumes exactly that stream. For F1 to F5 the stream holds a
  second \<open>[\<close>, which does not end the sequence.
\<close>

theorem fn_key_stream_round_trip:
  "\<forall>i\<in>{1..12}. \<forall>sc rest.
     tfb_get_fn_key_num (fst (tfb_read_keypress sc (map Some (fn_key_stream (i - 1)) @ rest))) = int i
     \<and> snd (tfb_read_keypress sc (map Some (fn_key_stream (i - 1)) @ rest)) = rest"
proof (intro ballI allI)
  fix i :: nat and sc rest
  assume "i \<in> {1..12}"
  then have i: "i - 1 < 12" and i': "int (i - 1) + 1 = int i"
    by auto
  show "tfb_get_fn_key_num (fst (tfb_read_keypress sc (map Some (fn_key_stream (i - 1)) @ rest))) = int i
     \<and> snd (tfb_read_keypress sc (map Some (fn_key_stream (i - 1)) @ rest)) = rest"
    by (simp only: fn_key_stream_decodes [OF i] fst_conv snd_conv fn_key_num_of_entry [OF i] i' simp_thms)
qed


theorem fn_key_stream_round_trip_witness:
  "\<forall>sc. (1 :: nat) \<in> {1..12} \<and> fn_key_stream (1 - 1) = [0x1B, 0x5B, 0x5B, 0x41]
     \<and> tfb_get_fn_key_num (fst (tfb_read_keypress sc (map Some [0x1B, 0x5B, 0x5B, 0x41]))) = 1"
proof
  fix sc
  have m: "(1 :: nat) \<in> {1..12}"
    by simp
  have st: "fn_key_stream (1 - 1) = [0x1B, 0x5B, 0x5B, 0x41]"
    by (simp add: fn_key_stream_def tfb_fn_key_seq_char_def)
  have "tfb_get_fn_key_num (fst (tfb_read_keypress sc (map Some (fn_key_stream (1 - 1)) @ []))) = int 1"
    using fn_key_stream_round_trip [rule_format, OF m, of sc "[]"] by (rule conjunct1)
  then have "tfb_get_fn_key_num (fst (tfb_read_keypress sc (map Some [0x1B, 0x5B, 0x5B, 0x41]))) = 1"
    by (simp only: st append_Nil2 of_nat_1)
  with m st show "(1 :: nat) \<in> {1..12} \<and> fn_key_stream (1 - 1) = [0x1B, 0x5B, 0x5B, 0x41]
     \<and> tfb_get_fn_key_num (fst (tfb_read_keypress sc (map Some [0x1B, 0x5B, 0x5B, 0x41]))) = 1"
    by (simp only: simp_thms)
qed

text \<open>
  C10. The table has twelve entries, none of them 0, so \<open>tfb_get_fn_key_num 0 = 0\<close>.
  For every key code the result lies in 0..12; it is 0 exactly when the code is not
  in the table, and otherwise it is the 1-based index of the first entry equal to
  the code.
\<close>

theorem fn_key_table_nonzero_and_num_range:
  "length tfb_fn_key_sequences = 12
   \<and> 0 \<notin> set tfb_fn_key_sequences
   \<and> tfb_get_fn_key_num 0 = 0
   \<and> (\<forall>k. 0 \<le> tfb_get_fn_key_num k \<and> tfb_get_fn_key_num k \<le> 12
        \<and> (tfb_get_fn_key_num k = 0 \<longleftrightarrow> k \<notin> set tfb_fn_key_sequences)
        \<and> (tfb_get_fn_key_num k \<noteq> 0 \<longrightarrow>
             tfb_fn_key_sequences ! nat (tfb_get_fn_key_num k - 1) = k
             \<and> (\<forall>j < nat (tfb_get_fn_key_num k - 1). tfb_fn_key_sequences ! j \<noteq> k)))"
proof -
  have len: "length tfb_fn_key_sequences = 12"
    by (simp add: fn_key_codes)
  have nz: "0 \<notin> set tfb_fn_key_sequences"
    by (simp add: fn_key_codes)
  have mem: "k \<in> set tfb_fn_key_sequences \<longleftrightarrow> (\<exists>j. j < 12 \<and> tfb_fn_key_sequences ! j = k)" for k
    using len by (auto simp: in_set_conv_nth)
  have gen: "0 \<le> tfb_get_fn_key_num k \<and> tfb_get_fn_key_num k \<le> 12
        \<and> (tfb_get_fn_key_num k = 0 \<longleftrightarrow> k \<notin> set tfb_fn_key_sequences)
        \<and> (tfb_get_fn_key_num k \<noteq> 0 \<longrightarrow>
             tfb_fn_key_sequences ! nat (tfb_get_fn_key_num k - 1) = k
             \<and> (\<forall>j < nat (tfb_get_fn_key_num k - 1). tfb_fn_key_sequences ! j \<noteq> k))" for k
    using fn_key_search_spec [of 0 k]
  proof
    assume "fn_key_search 0 k = 0 \<and> (\<forall>j. 0 \<le> j \<and> j < 12 \<longrightarrow> tfb_fn_key_sequences ! j \<noteq> k)"
    then show ?thesis
      by (simp add: tfb_get_fn_key_num_def mem)
  next
    assume "\<exists>r. fn_key_search 0 k = int r + 1 \<and> 0 \<le> r \<and> r < 12 \<and> tfb_fn_key_sequences ! r = k
         \<and> (\<forall>j. 0 \<le> j \<and> j < r \<longrightarrow> tfb_fn_key_sequences ! j \<noteq> k)"
    then obtain r where r: "fn_key_search 0 k = int r + 1" "r < 12" "tfb_fn_key_sequences ! r = k"
        "\<forall>j. j < r \<longrightarrow> tfb_fn_key_sequences ! j \<noteq> k"
      by auto
    have "k \<in> set tfb_fn_key_sequences"
      using r(2,3) mem by blast
    with r show ?thesis
      by (simp add: tfb_get_fn_key_num_def)
  qed
  have "tfb_get_fn_key_num 0 = 0"
    using gen [of 0] nz by simp
  with len nz gen show ?thesis
    by blast
qed

theorem fn_key_table_nonzero_and_num_range_witness:
  "tfb_get_fn_key_num 0x7E37315B1B \<noteq> 0 \<and> tfb_get_fn_key_num 0x7E37315B1B = 6
   \<and> tfb_fn_key_sequences ! 5 = 0x7E37315B1B"
proof -
  let ?k = "0x7E37315B1B :: u64"
  note gen = fn_key_table_nonzero_and_num_range [THEN conjunct2, THEN conjunct2, THEN conjunct2, rule_format, of ?k]
  have at5: "tfb_fn_key_sequences ! 5 = ?k"
    by (simp add: fn_key_codes)
  have "?k \<in> set tfb_fn_key_sequences"
    by (simp add: fn_key_codes)
  with gen have nz: "tfb_get_fn_key_num ?k \<noteq> 0"
    by blast
  with gen have hit: "tfb_fn_key_sequences ! nat (tfb_get_fn_key_num ?k - 1) = ?k"
    and rng: "0 \<le> tfb_get_fn_key_num ?k" "tfb_get_fn_key_num ?k \<le> 12"
    by blast+
  from nz rng have "nat (tfb_get_fn_key_num ?k - 1) < 12"
    by simp
  from below_12 [OF this] hit have "nat (tfb_get_fn_key_num ?k - 1) = 5"
    by (elim disjE) (simp_all add: fn_key_codes)
  with nz rng have "tfb_get_fn_key_num ?k = 6"
    by simp
  with nz at5 show ?thesis
    by (simp only: simp_thms)
qed

section \<open>Properties of the terminal mode controller\<close>

text \<open>
  C7. \<open>tfb_set_kb_raw_mode\<close> returns the wrong-mode code when raw mode is already
  active, whatever the terminal calls would do, and leaves the saved snapshot, the
  terminal's attributes and the flag as they were; so a call right after a
  successful one fails in this way. \<open>tfb_restore_kb_mode\<close> returns the wrong-mode
  code, with nothing changed, when raw mode is not active: at program start, and
  after a call of \<open>tfb_set_kb_raw_mode\<close> that failed.
\<close>

theorem kb_mode_wrong_mode:
  "(\<forall>get_ok set_ok k. tfb_kb_raw_mode k \<longrightarrow>
       tfb_set_kb_raw_mode get_ok set_ok k = (TFB_KB_WRONG_MODE, k))
   \<and> (\<forall>get_ok set_ok get_ok' set_ok' k.
         fst (tfb_set_kb_raw_mode get_ok set_ok k) = TFB_SUCCESS \<longrightarrow>
         tfb_set_kb_raw_mode get_ok' set_ok' (snd (tfb_set_kb_raw_mode get_ok set_ok k)) =
           (TFB_KB_WRONG_MODE, snd (tfb_set_kb_raw_mode get_ok set_ok k)))
   \<and> (\<forall>set_ok k. \<not> tfb_kb_raw_mode k \<longrightarrow>
         tfb_restore_kb_mode set_ok k = (TFB_KB_WRONG_MODE, k))
   \<and> (\<forall>set_ok tty. tfb_restore_kb_mode set_ok (kb_initial tty) = (TFB_KB_WRONG_MODE, kb_initial tty))
   \<and> (\<forall>get_ok set_ok set_ok' k.
         \<not> tfb_kb_raw_mode k \<and> fst (tfb_set_kb_raw_mode get_ok set_ok k) \<noteq> TFB_SUCCESS \<longrightarrow>
         fst (tfb_restore_kb_mode set_ok' (snd (tfb_set_kb_raw_mode get_ok set_ok k))) = TFB_KB_WRONG_MODE)"
proof (intro conjI allI impI)
  fix get_ok set_ok and k :: kb_state
  assume "tfb_kb_raw_mode k"
  then show "tfb_set_kb_raw_mode get_ok set_ok k = (TFB_KB_WRONG_MODE, k)"
    by (simp add: tfb_set_kb_raw_mode_def)
next
  fix get_ok set_ok get_ok' set_ok' and k :: kb_state
  assume ok: "fst (tfb_set_kb_raw_mode get_ok set_ok k) = TFB_SUCCESS"
  then have "tfb_kb_raw_mode (snd (tfb_set_kb_raw_mode get_ok set_ok k))"
    by (simp add: tfb_set_kb_raw_mode_def Let_def split: if_splits)
  then show "tfb_set_kb_raw_mode get_ok' set_ok' (snd (tfb_set_kb_raw_mode get_ok set_ok k)) =
           (TFB_KB_WRONG_MODE, snd (tfb_set_kb_raw_mode get_ok set_ok k))"
    by (simp add: tfb_set_kb_raw_mode_def [of get_ok' set_ok'])
next
  fix set_ok and k :: kb_state
  assume "\<not> tfb_kb_raw_mode k"
  then show "tfb_restore_kb_mode set_ok k = (TFB_KB_WRONG_MODE, k)"
    by (simp add: tfb_restore_kb_mode_def)
next
  fix set_ok and tty :: termios
  show "tfb_restore_kb_mode set_ok (kb_initial tty) = (TFB_KB_WRONG_MODE, kb_initial tty)"
    by (simp add: tfb_restore_kb_mode_def kb_initial_def)
next
  fix get_ok set_ok set_ok' and k :: kb_state
  assume "\<not> tfb_kb_raw_mode k \<and> fst (tfb_set_kb_raw_mode get_ok set_ok k) \<noteq> TFB_SUCCESS"
  then have "\<not> tfb_kb_raw_mode (snd (tfb_set_kb_raw_mode get_ok set_ok k))"
    by (simp add: tfb_set_kb_raw_mode_def Let_def split: if_splits)
  then show "fst (tfb_restore_kb_mode set_ok' (snd (tfb_set_kb_raw_mode get_ok set_ok k))) = TFB_KB_WRONG_MODE"
    by (simp add: tfb_restore_kb_mode_def)
qed

theorem kb_mode_wrong_mode_witness:
  "fst (tfb_set_kb_raw_mode True True (kb_initial cooked_termios)) = TFB_SUCCESS
   \<and> c_lflag (tty_termios (snd (tfb_set_kb_raw_mode True True (kb_initial cooked_termios)))) = 0xA30
   \<and> tfb_set_kb_raw_mode True True (snd (tfb_set_kb_raw_mode True True (kb_initial cooked_termios))) =
       (TFB_KB_WRONG_MODE, snd (tfb_set_kb_raw_mode True True (kb_initial cooked_termios)))
   \<and> tfb_restore_kb_mode True (kb_initial cooked_termios) = (TFB_KB_WRONG_MODE, kb_initial cooked_termios)"
proof -
  have ok: "fst (tfb_set_kb_raw_mode True True (kb_initial cooked_termios)) = TFB_SUCCESS"
    by (simp add: tfb_set_kb_raw_mode_def kb_initial_def Let_def)
  have lf: "c_lflag (tty_termios (snd (tfb_set_kb_raw_mode True True (kb_initial cooked_termios)))) = 0xA30"
    by (simp add: tfb_set_kb_raw_mode_def kb_initial_def Let_def cooked_termios_def
        ECHO_def ICANON_def IEXTEN_def ISIG_def)
  note twice = kb_mode_wrong_mode [THEN conjunct2, THEN conjunct1, rule_format, OF ok, of True True]
  note fresh = kb_mode_wrong_mode [THEN conjunct2, THEN conjunct2, THEN conjunct2, THEN conjunct1, rule_format,
      of True cooked_termios]
  from ok lf twice fresh show ?thesis
    by (simp only: simp_thms)
qed

section \<open>Properties of the teardown\<close>



section \<open>Properties of the compositor\<close>

subsection \<open>The row loop\<close>

lemma unat_shift2:
  fixes x :: u32
  assumes "4 * unat x < 2 ^ 32"
  shows "unat (push_bit 2 x) = 4 * unat x"
proof -
  have "unat (push_bit 2 x) = unat (4 * x)"
    by (simp add: push_bit_eq_mult mult.commute)
  also have "\<dots> = unat (4 :: u32) * unat x"
    using assms by (intro unat_mult_lem [THEN iffD1]) simp
  finally show ?thesis by simp
qed

lemma flush_rows_step:
  assumes "h < unat (fb_win_h s)"
  shows "flush_rows s n h d sr (m, calls) =
     flush_rows s n (Suc h) (d + 4 * fb_pitch_div4 s) (sr + 4 * fb_pitch_div4 s)
       (memcpy d sr n m, calls @ [(d, sr, n)])"
  using assms by (simp add: flush_rows.simps [of s n h])

lemma flush_rows_done:
  assumes "\<not> h < unat (fb_win_h s)"
  shows "flush_rows s n h d sr (m, calls) = (m, calls)"
  using assms by (simp add: flush_rows.simps [of s n h])

text \<open>
  The calls of the loop from row \<open>h\<close> on: one \<open>memcpy\<close> of \<open>n\<close> bytes per remaining
  row, both addresses advancing by four times \<open>fb_pitch_div4\<close>.
\<close>

lemma flush_rows_calls:
  "snd (flush_rows s n h d sr (m, calls)) =
     calls @ map (\<lambda>k. (d + k * (4 * fb_pitch_div4 s), sr + k * (4 * fb_pitch_div4 s), n))
               [0..<unat (fb_win_h s) - h]"
proof (induction "unat (fb_win_h s) - h" arbitrary: h d sr m calls)
  case 0
  then show ?case
    by (simp add: flush_rows_done)
next
  case (Suc j)
  then have lt: "h < unat (fb_win_h s)" and j: "j = unat (fb_win_h s) - Suc h"
    by simp_all
  have rows: "[0..<unat (fb_win_h s) - h] = 0 # map Suc [0..<j]"
    using Suc.hyps(2) [symmetric] by (simp only: upt_conv_Cons [of 0] map_Suc_upt)
  have "snd (flush_rows s n (Suc h) (d + 4 * fb_pitch_div4 s) (sr + 4 * fb_pitch_div4 s)
         (memcpy d sr n m, calls @ [(d, sr, n)])) =
     (calls @ [(d, sr, n)]) @
       map (\<lambda>k. (d + 4 * fb_pitch_div4 s + k * (4 * fb_pitch_div4 s),
                  sr + 4 * fb_pitch_div4 s + k * (4 * fb_pitch_div4 s), n)) [0..<j]"
    unfolding j by (rule Suc.hyps(1)) (simp add: j)
  then show ?case
    by (simp add: flush_rows_step [OF lt] rows comp_def add.assoc)
qed

text \<open>
  The store after the loop, when the destination rows lie in a region \<open>[dlo, dhi)\<close>
  and the source rows in a region \<open>[slo, shi)\<close> apart from it: an address inside a
  destination row holds the byte at the same offset from the source start, every
  other address holds what it held.
\<close>

lemma flush_rows_store:
  assumes dst: "\<And>k. k < unat (fb_win_h s) - h \<Longrightarrow>
        dlo \<le> d + k * (4 * fb_pitch_div4 s) \<and> d + k * (4 * fb_pitch_div4 s) + n \<le> dhi"
    and src: "\<And>k. k < unat (fb_win_h s) - h \<Longrightarrow>
        slo \<le> sr + k * (4 * fb_pitch_div4 s) \<and> sr + k * (4 * fb_pitch_div4 s) + n \<le> shi"
    and apart: "dhi \<le> slo \<or> shi \<le> dlo"
  shows "fst (flush_rows s n h d sr (m, calls)) a =
     (if \<exists>k < unat (fb_win_h s) - h.
           d + k * (4 * fb_pitch_div4 s) \<le> a \<and> a < d + k * (4 * fb_pitch_div4 s) + n
      then m (sr + (a - d)) else m a)"
  using dst src
proof (induction "unat (fb_win_h s) - h" arbitrary: h d sr m calls)
  case 0
  then show ?case
    by (simp add: flush_rows_done)
next
  case (Suc j)
  let ?st = "4 * fb_pitch_div4 s"
  let ?m1 = "memcpy d sr n m"
  from Suc.hyps(2) have lt: "h < unat (fb_win_h s)" and j: "j = unat (fb_win_h s) - Suc h"
    by simp_all
  have H: "unat (fb_win_h s) - h = Suc j"
    using Suc.hyps(2) by simp
  have d0: "dlo \<le> d \<and> d + n \<le> dhi" and s0: "slo \<le> sr \<and> sr + n \<le> shi"
    using Suc.prems(1) [of 0] Suc.prems(2) [of 0] H by simp_all
  have dS: "dlo \<le> d + ?st + k * ?st \<and> d + ?st + k * ?st + n \<le> dhi" if "k < j" for k
    using Suc.prems(1) [of "Suc k"] that H by (simp add: add.assoc)
  have sS: "slo \<le> sr + ?st + k * ?st \<and> sr + ?st + k * ?st + n \<le> shi" if "k < j" for k
    using Suc.prems(2) [of "Suc k"] that H by (simp add: add.assoc)
  have IH: "fst (flush_rows s n (Suc h) (d + ?st) (sr + ?st) (?m1, calls @ [(d, sr, n)])) a =
     (if \<exists>k < j. d + ?st + k * ?st \<le> a \<and> a < d + ?st + k * ?st + n
      then ?m1 (sr + ?st + (a - (d + ?st))) else ?m1 a)"
    unfolding j
  proof (rule Suc.hyps(1))
    show "j = unat (fb_win_h s) - Suc h" by (rule j)
  next
    fix k assume "k < unat (fb_win_h s) - Suc h"
    then show "dlo \<le> d + ?st + k * ?st \<and> d + ?st + k * ?st + n \<le> dhi"
      using dS [of k] j by simp
  next
    fix k assume "k < unat (fb_win_h s) - Suc h"
    then show "slo \<le> sr + ?st + k * ?st \<and> sr + ?st + k * ?st + n \<le> shi"
      using sS [of k] j by simp
  qed
  define R where "R k \<longleftrightarrow> d + k * ?st \<le> a \<and> a < d + k * ?st + n" for k
  have R0: "R 0 \<longleftrightarrow> d \<le> a \<and> a < d + n"
    by (simp add: R_def)
  have RS: "R (Suc k) \<longleftrightarrow> d + ?st + k * ?st \<le> a \<and> a < d + ?st + k * ?st + n" for k
    by (simp add: R_def add.assoc)
  have ex: "(\<exists>k < Suc j. R k) \<longleftrightarrow> R 0 \<or> (\<exists>k < j. R (Suc k))"
    by (rule Ex_less_Suc2)
  have goal: "fst (flush_rows s n h d sr (m, calls)) a =
      (if \<exists>k < j. R (Suc k) then ?m1 (sr + ?st + (a - (d + ?st))) else ?m1 a)"
    by (simp only: flush_rows_step [OF lt] IH RS)
  have rhs: "(\<exists>k < unat (fb_win_h s) - h. d + k * ?st \<le> a \<and> a < d + k * ?st + n)
      \<longleftrightarrow> R 0 \<or> (\<exists>k < j. R (Suc k))"
  proof -
    have "(\<exists>k < unat (fb_win_h s) - h. d + k * ?st \<le> a \<and> a < d + k * ?st + n)
        \<longleftrightarrow> (\<exists>k < Suc j. R k)"
      by (simp only: H R_def)
    then show ?thesis
      by (simp only: ex)
  qed
  show ?case
  proof (cases "\<exists>k < j. R (Suc k)")
    case True
    then obtain k where k: "k < j" "d + ?st + k * ?st \<le> a" "a < d + ?st + k * ?st + n"
      using RS by blast
    have addr: "sr + ?st + (a - (d + ?st)) = sr + (a - d)"
      using k(2) by simp
    have "slo \<le> sr + (a - d) \<and> sr + (a - d) < shi"
      using sS [OF k(1)] k(2,3) by linarith
    then have "sr + (a - d) < d \<or> d + n \<le> sr + (a - d)"
      using d0 apart by linarith
    then have "?m1 (sr + (a - d)) = m (sr + (a - d))"
      by (auto simp: memcpy_def)
    with True show ?thesis
      by (simp only: goal rhs addr simp_thms if_True)
  next
    case False
    have "?m1 a = (if R 0 then m (sr + (a - d)) else m a)"
      by (simp add: memcpy_def R0)
    with False show ?thesis
      by (simp only: goal rhs simp_thms if_False)
  qed
qed

subsection \<open>The flush\<close>

lemma window_fitsD:
  assumes "window_fits s"
  shows "fb_buffer s \<noteq> fb_real_buffer s"
    and "fb_real_buffer s + fb_size s \<le> fb_buffer s \<or> fb_buffer s + fb_size s \<le> fb_real_buffer s"
    and "fb_pitch s = 4 * fb_pitch_div4 s"
    and "fb_pitch s < 2 ^ 32"
    and "4 * (unat (fb_off_x s) + unat (fb_win_w s)) \<le> fb_pitch s"
    and "(unat (fb_off_y s) + unat (fb_win_h s)) * fb_pitch s \<le> fb_size s"
  using assms unfolding window_fits_def by blast+

lemma window_fits_shifts:
  assumes "window_fits s"
  shows "unat (push_bit 2 (fb_off_x s)) = 4 * unat (fb_off_x s)"
    and "unat (push_bit 2 (fb_win_w s)) = 4 * unat (fb_win_w s)"
proof -
  have "4 * (unat (fb_off_x s) + unat (fb_win_w s)) < 2 ^ 32"
    using window_fitsD(4,5) [OF assms] by linarith
  then have "4 * unat (fb_off_x s) < 2 ^ 32" and "4 * unat (fb_win_w s) < 2 ^ 32"
    by simp_all
  then show "unat (push_bit 2 (fb_off_x s)) = 4 * unat (fb_off_x s)"
    and "unat (push_bit 2 (fb_win_w s)) = 4 * unat (fb_win_w s)"
    by (simp_all only: unat_shift2)
qed

lemma flush_window_unfold:
  assumes "window_fits s"
  shows "tfb_flush_window s m =
     flush_rows s (4 * unat (fb_win_w s)) 0
       (fb_real_buffer s + unat (fb_off_y s) * fb_pitch s + 4 * unat (fb_off_x s))
       (fb_buffer s + unat (fb_off_y s) * fb_pitch s + 4 * unat (fb_off_x s)) (m, [])"
proof -
  have "fb_buffer s \<noteq> fb_real_buffer s"
    by (rule window_fitsD(1) [OF assms])
  then show ?thesis
    by (simp add: tfb_flush_window_def Let_def window_fits_shifts [OF assms])
qed

text \<open>Row \<open>k\<close> of the window lies inside a buffer of the session's size.\<close>

lemma window_row_in_buffer:
  assumes "window_fits s" and "k < unat (fb_win_h s)"
  shows "unat (fb_off_y s) * fb_pitch s + 4 * unat (fb_off_x s) + k * fb_pitch s
           + 4 * unat (fb_win_w s) \<le> fb_size s"
proof -
  let ?p = "fb_pitch s"
  have rows: "unat (fb_off_y s) + k + 1 \<le> unat (fb_off_y s) + unat (fb_win_h s)"
    using assms(2) by simp
  have cols: "4 * unat (fb_off_x s) + 4 * unat (fb_win_w s) \<le> ?p"
    using window_fitsD(5) [OF assms(1)] by simp
  have "(unat (fb_off_y s) + k + 1) * ?p \<le> (unat (fb_off_y s) + unat (fb_win_h s)) * ?p"
    using rows by (rule mult_le_mono1)
  moreover have "(unat (fb_off_y s) + k + 1) * ?p = unat (fb_off_y s) * ?p + k * ?p + ?p"
    by (simp add: algebra_simps)
  ultimately show ?thesis
    using cols window_fitsD(6) [OF assms(1)] by linarith
qed

text \<open>
  A byte offset lies in the window exactly when it lies in one of the copied rows.
\<close>

lemma in_window_iff_row:
  assumes ok: "window_fits s"
  shows "in_window s i \<longleftrightarrow>
     (\<exists>k < unat (fb_win_h s).
        unat (fb_off_y s) * fb_pitch s + 4 * unat (fb_off_x s) + k * fb_pitch s \<le> i
        \<and> i < unat (fb_off_y s) * fb_pitch s + 4 * unat (fb_off_x s) + k * fb_pitch s
                + 4 * unat (fb_win_w s))"
    (is "_ \<longleftrightarrow> (\<exists>k < ?h. ?row k)")
proof
  let ?p = "fb_pitch s"
  assume w: "in_window s i"
  define k where "k = i div ?p - unat (fb_off_y s)"
  have "unat (fb_off_y s) \<le> i div ?p" and "i div ?p < unat (fb_off_y s) + ?h"
    using w by (simp_all add: in_window_def)
  then have q: "i div ?p = unat (fb_off_y s) + k" and kh: "k < ?h"
    unfolding k_def by linarith+
  have "i = (i div ?p) * ?p + i mod ?p"
    by simp
  then have i: "i = unat (fb_off_y s) * ?p + k * ?p + i mod ?p"
    by (simp only: q add_mult_distrib)
  have "4 * unat (fb_off_x s) \<le> i mod ?p"
    and "i mod ?p < 4 * unat (fb_off_x s) + 4 * unat (fb_win_w s)"
    using w by (simp_all add: in_window_def)
  with i have "?row k"
    by linarith
  with kh show "\<exists>k < ?h. ?row k"
    by blast
next
  let ?p = "fb_pitch s"
  assume "\<exists>k < ?h. ?row k"
  then obtain k where kh: "k < ?h" and row: "?row k"
    by blast
  have cols: "4 * unat (fb_off_x s) + 4 * unat (fb_win_w s) \<le> ?p"
    using window_fitsD(5) [OF ok] by simp
  define c where "c = i - (unat (fb_off_y s) + k) * ?p"
  have base: "(unat (fb_off_y s) + k) * ?p = unat (fb_off_y s) * ?p + k * ?p"
    by (simp add: add_mult_distrib)
  have i: "i = (unat (fb_off_y s) + k) * ?p + c"
    and c: "4 * unat (fb_off_x s) \<le> c" "c < 4 * unat (fb_off_x s) + 4 * unat (fb_win_w s)"
    using row unfolding c_def base by linarith+
  have cp: "c < ?p"
    using c cols by linarith
  have "i div ?p = unat (fb_off_y s) + k" and "i mod ?p = c"
    using cp by (simp_all add: i)
  with c kh show "in_window s i"
    by (simp add: in_window_def)
qed


text \<open>
  The store after the flush: the bytes of the mapped region inside the window hold
  the shadow buffer's bytes at the same offset, every other address is unchanged.
\<close>

lemma flush_window_store:
  assumes ok: "window_fits s"
  shows "fst (tfb_flush_window s m) a =
     (if fb_real_buffer s \<le> a \<and> a < fb_real_buffer s + fb_size s
         \<and> in_window s (a - fb_real_buffer s)
      then m (fb_buffer s + (a - fb_real_buffer s)) else m a)"
proof -
  let ?p = "fb_pitch s" and ?h = "unat (fb_win_h s)" and ?n = "4 * unat (fb_win_w s)"
  let ?off = "unat (fb_off_y s) * fb_pitch s + 4 * unat (fb_off_x s)"
  let ?d = "fb_real_buffer s + unat (fb_off_y s) * fb_pitch s + 4 * unat (fb_off_x s)"
  let ?sr = "fb_buffer s + unat (fb_off_y s) * fb_pitch s + 4 * unat (fb_off_x s)"
  note st = window_fitsD(3) [OF ok, symmetric]
  note apart = window_fitsD(2) [OF ok]
  have dst: "fb_real_buffer s \<le> ?d + k * (4 * fb_pitch_div4 s)
      \<and> ?d + k * (4 * fb_pitch_div4 s) + ?n \<le> fb_real_buffer s + fb_size s" if "k < ?h - 0" for k
    using window_row_in_buffer [OF ok, of k] that unfolding st by simp
  have src: "fb_buffer s \<le> ?sr + k * (4 * fb_pitch_div4 s)
      \<and> ?sr + k * (4 * fb_pitch_div4 s) + ?n \<le> fb_buffer s + fb_size s" if "k < ?h - 0" for k
    using window_row_in_buffer [OF ok, of k] that unfolding st by simp
  have loop: "fst (tfb_flush_window s m) a =
     (if \<exists>k < ?h. ?d + k * ?p \<le> a \<and> a < ?d + k * ?p + ?n then m (?sr + (a - ?d)) else m a)"
    using flush_rows_store [of s 0 "fb_real_buffer s" ?d ?n "fb_real_buffer s + fb_size s"
        "fb_buffer s" ?sr "fb_buffer s + fb_size s" m "[]" a, OF dst src apart]
    unfolding st by (simp only: flush_window_unfold [OF ok] diff_zero)
  show ?thesis
  proof (cases "\<exists>k < ?h. ?d + k * ?p \<le> a \<and> a < ?d + k * ?p + ?n")
    case True
    then obtain k where k: "k < ?h" "?d + k * ?p \<le> a" "a < ?d + k * ?p + ?n"
      by blast
    have lo: "fb_real_buffer s \<le> a"
      using k(2) by linarith
    have hi: "a < fb_real_buffer s + fb_size s"
      using window_row_in_buffer [OF ok k(1)] k(3) by linarith
    have "?off + k * ?p \<le> a - fb_real_buffer s \<and> a - fb_real_buffer s < ?off + k * ?p + ?n"
      using k lo by linarith
    with k(1) have "in_window s (a - fb_real_buffer s)"
      unfolding in_window_iff_row [OF ok] by blast
    moreover have "?sr + (a - ?d) = fb_buffer s + (a - fb_real_buffer s)"
      using k(2) by linarith
    ultimately show ?thesis
      using True lo hi by (simp only: loop simp_thms if_True)
  next
    case False
    have "\<not> (fb_real_buffer s \<le> a \<and> a < fb_real_buffer s + fb_size s
         \<and> in_window s (a - fb_real_buffer s))"
    proof
      assume in_w: "fb_real_buffer s \<le> a \<and> a < fb_real_buffer s + fb_size s
         \<and> in_window s (a - fb_real_buffer s)"
      then obtain k where k: "k < ?h" "?off + k * ?p \<le> a - fb_real_buffer s"
          "a - fb_real_buffer s < ?off + k * ?p + ?n"
        unfolding in_window_iff_row [OF ok] by blast
      from in_w k have "?d + k * ?p \<le> a \<and> a < ?d + k * ?p + ?n"
        by linarith
      with k(1) False show False
        by blast
    qed
    with False show ?thesis
      by (simp only: loop simp_thms if_False)
  qed
qed

lemma flush_window_calls:
  assumes ok: "window_fits s"
  shows "snd (tfb_flush_window s m) =
     map (\<lambda>k. (fb_real_buffer s + (unat (fb_off_y s) + k) * fb_pitch s + 4 * unat (fb_off_x s),
                fb_buffer s + (unat (fb_off_y s) + k) * fb_pitch s + 4 * unat (fb_off_x s),
                4 * unat (fb_win_w s)))
         [0..<unat (fb_win_h s)]"
proof -
  note st = window_fitsD(3) [OF ok, symmetric]
  have row: "(fb_real_buffer s + unat (fb_off_y s) * fb_pitch s + 4 * unat (fb_off_x s)
                + k * (4 * fb_pitch_div4 s),
              fb_buffer s + unat (fb_off_y s) * fb_pitch s + 4 * unat (fb_off_x s)
                + k * (4 * fb_pitch_div4 s),
              4 * unat (fb_win_w s)) =
             (fb_real_buffer s + (unat (fb_off_y s) + k) * fb_pitch s + 4 * unat (fb_off_x s),
              fb_buffer s + (unat (fb_off_y s) + k) * fb_pitch s + 4 * unat (fb_off_x s),
              4 * unat (fb_win_w s))" for k
    by (simp add: st add_mult_distrib)
  show ?thesis
    by (simp only: flush_window_unfold [OF ok] flush_rows_calls row append_Nil diff_zero)
qed


text \<open>
  The windows \<open>tfb_set_window\<close> accepts fit, when the sums do not wrap around and the
  screen at the base offset the device reports lies within a scanline and within the
  mapped size.
\<close>

lemma set_window_keeps_window_fits:
  assumes fits: "window_fits s"
    and gx: "4 * (unat (fbi_xoffset s) + unat (fb_screen_w s)) \<le> fb_pitch s"
    and gy0: "unat (fbi_yoffset s) + unat (fb_screen_h s) < 2 ^ 32"
    and gy: "(unat (fbi_yoffset s) + unat (fb_screen_h s)) * fb_pitch s \<le> fb_size s"
    and bx: "unat x + unat w \<le> unat (fb_screen_w s)"
    and bh: "unat y + unat h \<le> unat (fb_screen_h s)"
  shows "window_fits (snd (tfb_set_window x y w h s))"
proof -
  have "\<not> fb_screen_w s < x + w" and "\<not> fb_screen_h s < y + h"
    using bx bh by (simp_all add: u32_sum_within)
  then have new: "snd (tfb_set_window x y w h s) =
      s\<lparr>fb_off_x := fbi_xoffset s + x, fb_off_y := fbi_yoffset s + y,
        fb_win_w := w, fb_win_h := h,
        fb_win_end_x := fbi_xoffset s + x + w, fb_win_end_y := fbi_yoffset s + y + h\<rparr>"
    by (simp add: tfb_set_window_def Let_def)
  have sel: "fb_buffer (snd (tfb_set_window x y w h s)) = fb_buffer s"
    "fb_real_buffer (snd (tfb_set_window x y w h s)) = fb_real_buffer s"
    "fb_size (snd (tfb_set_window x y w h s)) = fb_size s"
    "fb_pitch (snd (tfb_set_window x y w h s)) = fb_pitch s"
    "fb_pitch_div4 (snd (tfb_set_window x y w h s)) = fb_pitch_div4 s"
    "fb_off_x (snd (tfb_set_window x y w h s)) = fbi_xoffset s + x"
    "fb_off_y (snd (tfb_set_window x y w h s)) = fbi_yoffset s + y"
    "fb_win_w (snd (tfb_set_window x y w h s)) = w"
    "fb_win_h (snd (tfb_set_window x y w h s)) = h"
    by (simp_all add: new)
  have "unat (fbi_xoffset s) + unat x < 2 ^ LENGTH(32)"
    using gx bx window_fitsD(4) [OF fits] by simp
  then have ox: "unat (fbi_xoffset s + x) = unat (fbi_xoffset s) + unat x"
    by (simp only: unat_add_lem)
  have "unat (fbi_yoffset s) + unat y < 2 ^ LENGTH(32)"
    using gy0 bh by simp
  then have oy: "unat (fbi_yoffset s + y) = unat (fbi_yoffset s) + unat y"
    by (simp only: unat_add_lem)
  have "4 * (unat (fbi_xoffset s + x) + unat w)
      \<le> 4 * (unat (fbi_xoffset s) + unat (fb_screen_w s))"
    unfolding ox using bx by simp
  then have cols: "4 * (unat (fbi_xoffset s + x) + unat w) \<le> fb_pitch s"
    using gx by (rule le_trans)
  have "unat (fbi_yoffset s + y) + unat h \<le> unat (fbi_yoffset s) + unat (fb_screen_h s)"
    unfolding oy using bh by simp
  then have "(unat (fbi_yoffset s + y) + unat h) * fb_pitch s
      \<le> (unat (fbi_yoffset s) + unat (fb_screen_h s)) * fb_pitch s"
    by (rule mult_le_mono1)
  then have rows: "(unat (fbi_yoffset s + y) + unat h) * fb_pitch s \<le> fb_size s"
    using gy by (rule le_trans)
  show ?thesis
    unfolding window_fits_def sel
    using window_fitsD(1-4) [OF fits] cols rows by blast
qed

text \<open>
  C4, as the spec states it: for every viewport the flush leaves every byte of the
  mapped region outside the viewport unchanged. On a 4 x 3 screen with a 16-byte stride
  whose device reports the base offset (1, 0), \<open>tfb_set_window\<close> accepts the window
  (0, 0, 4, 2) and stores the offset (1, 0): each 16-byte row starts 4 bytes into a
  scanline and runs 4 bytes into the next one. Both \<open>memcpy\<close> calls stay inside the
  two 48-byte buffers, yet byte 16 of the mapped region (row 1, column 0), which is
  outside the window, changes from 0xAA to the shadow buffer's 0x55.
\<close>

theorem flush_window_row_runs_past_scanline:
  "fst (tfb_set_window 0 0 4 2 panned_session) = TFB_SUCCESS
   \<and> fb_real_buffer (snd (tfb_set_window 0 0 4 2 panned_session)) = 100
   \<and> fb_buffer (snd (tfb_set_window 0 0 4 2 panned_session)) = 200
   \<and> fb_size (snd (tfb_set_window 0 0 4 2 panned_session)) = 48
   \<and> snd (tfb_flush_window (snd (tfb_set_window 0 0 4 2 panned_session)) tiny_mem) =
       [(104, 204, 16), (120, 220, 16)]
   \<and> \<not> in_window (snd (tfb_set_window 0 0 4 2 panned_session)) 16
   \<and> tiny_mem (100 + 16) = 0xAA
   \<and> fst (tfb_flush_window (snd (tfb_set_window 0 0 4 2 panned_session)) tiny_mem) (100 + 16) = 0x55"
  by (simp add: tfb_set_window_def panned_session_def tiny_session_def Let_def
      tfb_flush_window_def flush_rows.simps memcpy_def tiny_mem_def in_window_def)

text \<open>
  C4, amended. In shadow-buffer mode, when the shadow buffer and the mapped region are
  apart, the byte stride is four times the pixel stride, and the window's rows end
  within a scanline and within the mapped size (\<open>window_fits\<close>), the flush makes one
  \<open>memcpy\<close> per window row, of \<open>4 * width\<close> bytes, from the shadow buffer to the
  mapped region at the same offset, row \<open>k\<close> at the offset of screen row \<open>off_y + k\<close>,
  column \<open>off_x\<close>; the lengths add up to \<open>width * height * 4\<close>. Afterwards every byte
  of the mapped region inside the window equals the shadow buffer's byte, every byte
  of the mapped region outside the window is what it was, and so is every byte
  outside the mapped region (the shadow buffer among them), whatever the two buffers
  held.
\<close>

theorem flush_window_copies_window_only:
  assumes ok: "window_fits s"
  shows "snd (tfb_flush_window s m) =
       map (\<lambda>k. (fb_real_buffer s + (unat (fb_off_y s) + k) * fb_pitch s + 4 * unat (fb_off_x s),
                  fb_buffer s + (unat (fb_off_y s) + k) * fb_pitch s + 4 * unat (fb_off_x s),
                  4 * unat (fb_win_w s)))
           [0..<unat (fb_win_h s)]
    \<and> sum_list (map (\<lambda>(dest, src, n). n) (snd (tfb_flush_window s m))) =
        unat (fb_win_w s) * unat (fb_win_h s) * 4
    \<and> (\<forall>i < fb_size s. fst (tfb_flush_window s m) (fb_real_buffer s + i) =
          (if in_window s i then m (fb_buffer s + i) else m (fb_real_buffer s + i)))
    \<and> (\<forall>a. \<not> (fb_real_buffer s \<le> a \<and> a < fb_real_buffer s + fb_size s) \<longrightarrow>
          fst (tfb_flush_window s m) a = m a)"
proof (intro conjI allI impI)
  show "snd (tfb_flush_window s m) =
       map (\<lambda>k. (fb_real_buffer s + (unat (fb_off_y s) + k) * fb_pitch s + 4 * unat (fb_off_x s),
                  fb_buffer s + (unat (fb_off_y s) + k) * fb_pitch s + 4 * unat (fb_off_x s),
                  4 * unat (fb_win_w s)))
           [0..<unat (fb_win_h s)]"
    by (rule flush_window_calls [OF ok])
next
  show "sum_list (map (\<lambda>(dest, src, n). n) (snd (tfb_flush_window s m))) =
        unat (fb_win_w s) * unat (fb_win_h s) * 4"
    by (simp add: flush_window_calls [OF ok] comp_def sum_list_triv)
next
  fix i assume "i < fb_size s"
  then show "fst (tfb_flush_window s m) (fb_real_buffer s + i) =
          (if in_window s i then m (fb_buffer s + i) else m (fb_real_buffer s + i))"
    by (simp add: flush_window_store [OF ok])
next
  fix a assume "\<not> (fb_real_buffer s \<le> a \<and> a < fb_real_buffer s + fb_size s)"
  then show "fst (tfb_flush_window s m) a = m a"
    by (auto simp: flush_window_store [OF ok])
qed

theorem flush_window_copies_window_only_witness:
  "window_fits tiny_session
   \<and> snd (tfb_flush_window tiny_session tiny_mem) = [(120, 220, 8)]
   \<and> fst (tfb_flush_window tiny_session tiny_mem) 119 = 0xAA
   \<and> fst (tfb_flush_window tiny_session tiny_mem) 120 = 0x55
   \<and> fst (tfb_flush_window tiny_session tiny_mem) 127 = 0x55
   \<and> fst (tfb_flush_window tiny_session tiny_mem) 128 = 0xAA"
proof -
  have ok: "window_fits tiny_session"
    by (simp add: window_fits_def tiny_session_def)
  note flush = flush_window_copies_window_only [OF ok, of tiny_mem]
  have calls: "snd (tfb_flush_window tiny_session tiny_mem) = [(120, 220, 8)]"
    using flush [THEN conjunct1] by (simp add: tiny_session_def)
  have bytes: "fst (tfb_flush_window tiny_session tiny_mem) (fb_real_buffer tiny_session + i) =
      (if in_window tiny_session i then tiny_mem (fb_buffer tiny_session + i)
       else tiny_mem (fb_real_buffer tiny_session + i))" if "i < fb_size tiny_session" for i
    using flush [THEN conjunct2, THEN conjunct2, THEN conjunct1] that by blast
  have "fst (tfb_flush_window tiny_session tiny_mem) 119 = 0xAA"
    using bytes [of 19] by (simp add: tiny_session_def in_window_def tiny_mem_def)
  moreover have "fst (tfb_flush_window tiny_session tiny_mem) 120 = 0x55"
    using bytes [of 20] by (simp add: tiny_session_def in_window_def tiny_mem_def)
  moreover have "fst (tfb_flush_window tiny_session tiny_mem) 127 = 0x55"
    using bytes [of 27] by (simp add: tiny_session_def in_window_def tiny_mem_def)
  moreover have "fst (tfb_flush_window tiny_session tiny_mem) 128 = 0xAA"
    using bytes [of 28] by (simp add: tiny_session_def in_window_def tiny_mem_def)
  ultimately show ?thesis
    using ok calls by (simp only: simp_thms)
qed

end
